theory Spec2Isabelle
  imports Complex_Main
begin

section \<open>JavaScript values delivered by the fetch\<close>

text \<open>
  The viewer keeps whatever \<^verbatim>\<open>res.json()\<close> delivers in a state cell typed
  \<^verbatim>\<open>any[]\<close>. The elements are JavaScript values as \<^verbatim>\<open>JSON.parse\<close> builds
  them, plus \<^verbatim>\<open>undefined\<close>, which reading a missing property or an index out
  of range produces. A parsed number is a double: a finite one is a rational, a literal
  too large for a double becomes an infinity; \<^verbatim>\<open>NaN\<close> cannot come out of JSON.
  An object is the list of its own properties (the keys are distinct after parsing).
\<close>

datatype jsnum = Finite rat | PosInfinity | NegInfinity

datatype jsval =
    JUndefined
  | JNull
  | JBool bool
  | JNum jsnum
  | JStr string
  | JArr "jsval list"
  | JObj "(string \<times> jsval) list"

datatype js_error = Error string | TypeError | InvalidChild

text \<open>Truthiness, as \<^verbatim>\<open>!report\<close> tests it.\<close>

fun truthy :: "jsval \<Rightarrow> bool" where
  "truthy JUndefined = False"
| "truthy JNull = False"
| "truthy (JBool b) = b"
| "truthy (JNum n) = (n \<noteq> Finite 0)"
| "truthy (JStr s) = (s \<noteq> [])"
| "truthy (JArr xs) = True"
| "truthy (JObj kvs) = True"

fun nullish :: "jsval \<Rightarrow> bool" where
  "nullish JUndefined = True"
| "nullish JNull = True"
| "nullish v = False"

text \<open>
  \<^verbatim>\<open>v.k\<close> for a value that is neither \<^verbatim>\<open>null\<close> nor \<^verbatim>\<open>undefined\<close>, and a
  key \<open>k\<close> that no prototype defines (every key the viewer reads but \<^verbatim>\<open>map\<close>,
  which \<open>optional_map\<close> below handles): an object gives its own property, anything
  else gives \<^verbatim>\<open>undefined\<close>.
\<close>

fun field :: "jsval \<Rightarrow> string \<Rightarrow> jsval" where
  "field (JObj kvs) k = (case map_of kvs k of Some v \<Rightarrow> v | None \<Rightarrow> JUndefined)"
| "field v k = JUndefined"

text \<open>\<^verbatim>\<open>v.k\<close> in general: reading a property of null or undefined throws.\<close>

definition get_prop :: "jsval \<Rightarrow> string \<Rightarrow> js_error + jsval" where
  "get_prop v k = (if nullish v then Inl TypeError else Inr (field v k))"

text \<open>\<^verbatim>\<open>reports[index]\<close>: out of range the read gives \<^verbatim>\<open>undefined\<close>.\<close>

definition nth_js :: "jsval list \<Rightarrow> int \<Rightarrow> jsval" where
  "nth_js xs i = (if 0 \<le> i \<and> i < int (length xs) then xs ! nat i else JUndefined)"

section \<open>Rendered output\<close>

text \<open>
  The handlers a rendered control can carry: the two navigation handlers of the viewer
  and the \<^verbatim>\<open>toggle\<close> closure of a disclosure instance. React keeps one state cell
  per mounted \<^verbatim>\<open>AccordionItem\<close>; the model names the instance by its
  \<^verbatim>\<open>value\<close> prop, which differs for all the items the viewer mounts.
\<close>

datatype action = HandlePrev | HandleNext | Toggle string

record attrs =
  className :: "string option"
  disabled :: "bool option"
  onClick :: "action option"
  key :: "nat option"

text \<open>
  The output of rendering: host elements, literal text, a JavaScript value placed as a
  child (\<^verbatim>\<open>{report.file_name}\<close>; \<^verbatim>\<open>null\<close> and \<^verbatim>\<open>undefined\<close> display
  nothing), and an array of elements placed as a child.
\<close>

datatype vnode =
    Elem (tag: string) (attributes: attrs) (children: "vnode list")
  | Text string
  | Expr jsval
  | Items "vnode list"

definition no_attrs :: attrs where
  "no_attrs = \<lparr>className = None, disabled = None, onClick = None, key = None\<rparr>"

definition cls :: "string \<Rightarrow> attrs" where
  "cls c = no_attrs\<lparr>className := Some c\<rparr>"

text \<open>Every element of a rendered tree, in document order.\<close>

fun elements :: "vnode \<Rightarrow> vnode list" where
  "elements (Elem t a cs) = Elem t a cs # concat (map elements cs)"
| "elements (Items vs) = concat (map elements vs)"
| "elements (Text s) = []"
| "elements (Expr v) = []"

definition elems_by_tag :: "string \<Rightarrow> vnode \<Rightarrow> vnode list" where
  "elems_by_tag t v = filter (\<lambda>e. tag e = t) (elements v)"

text \<open>The button showing a given label.\<close>

definition buttons_labelled :: "string \<Rightarrow> vnode \<Rightarrow> vnode list" where
  "buttons_labelled l v = filter (\<lambda>e. children e = [Text l]) (elems_by_tag ''button'' v)"

text \<open>
  The handlers a user can fire on a rendered tree: a control that is not in the tree
  cannot be activated, and a disabled button does not deliver its click.
\<close>

definition clickable :: "vnode \<Rightarrow> action list" where
  "clickable v =
     concat (map (\<lambda>e. case onClick (attributes e) of
                          None \<Rightarrow> []
                        | Some a \<Rightarrow> if disabled (attributes e) = Some True then [] else [a])
                 (elements v))"

text \<open>
  What React DOM accepts as a child when it mounts a tree: a string or a number is
  displayed as text, a boolean, \<^verbatim>\<open>null\<close> and \<^verbatim>\<open>undefined\<close> display nothing,
  an array displays its elements, and a plain object is refused (\<^verbatim>\<open>Objects are not
  valid as a React child\<close>). A tree mounts when every value placed in it is accepted;
  what a closed disclosure section holds back is not in the tree and is not looked at.
\<close>

fun displayable :: "jsval \<Rightarrow> bool" where
  "displayable (JObj kvs) = False"
| "displayable (JArr xs) = list_all displayable xs"
| "displayable v = True"

fun exprs :: "vnode \<Rightarrow> jsval list" where
  "exprs (Elem t a cs) = concat (map exprs cs)"
| "exprs (Items vs) = concat (map exprs vs)"
| "exprs (Text s) = []"
| "exprs (Expr v) = [v]"

definition mountable :: "vnode \<Rightarrow> bool" where
  "mountable v = list_all displayable (exprs v)"

section \<open>Components\<close>

text \<open>
  A component renders under the context its nearest enclosing
  \<^verbatim>\<open>AccordionItemContext.Provider\<close> supplies (\<^verbatim>\<open>undefined\<close>, here \<open>None\<close>,
  when there is none), and either throws or returns its output.
\<close>

record item_context =
  open_state :: bool
  toggle :: action

type_synonym component = "item_context option \<Rightarrow> js_error + vnode"

definition bind_err :: "js_error + 'a \<Rightarrow> ('a \<Rightarrow> js_error + 'b) \<Rightarrow> js_error + 'b" where
  "bind_err m f = (case m of Inl e \<Rightarrow> Inl e | Inr x \<Rightarrow> f x)"

text \<open>In order, stopping at the first exception.\<close>

fun map_err :: "('a \<Rightarrow> js_error + 'b) \<Rightarrow> 'a list \<Rightarrow> js_error + 'b list" where
  "map_err f [] = Inr []"
| "map_err f (x # xs) =
     bind_err (f x) (\<lambda>y. bind_err (map_err f xs) (\<lambda>ys. Inr (y # ys)))"

definition node :: "vnode \<Rightarrow> component" where
  "node v = (\<lambda>ctx. Inr v)"

definition txt_node :: "string \<Rightarrow> component" where
  "txt_node s = node (Text s)"

definition expr :: "jsval \<Rightarrow> component" where
  "expr v = node (Expr v)"

text \<open>A host element: its children render under the same context.\<close>

definition el :: "string \<Rightarrow> attrs \<Rightarrow> component list \<Rightarrow> component" where
  "el t a cs = (\<lambda>ctx. bind_err (map_err (\<lambda>c. c ctx) cs) (\<lambda>vs. Inr (Elem t a vs)))"

subsection \<open>accordion.tsx\<close>

definition Accordion :: "string \<Rightarrow> component list \<Rightarrow> component" where
  "Accordion className' cs = el ''div'' (cls (''bg-slate-900 text-white '' @ className')) cs"

text \<open>\<^verbatim>\<open>useState(false)\<close> and the updater \<^verbatim>\<open>(prev) => !prev\<close>.\<close>

definition AccordionItem_init :: bool where
  "AccordionItem_init = False"

definition toggle_open :: "bool \<Rightarrow> bool" where
  "toggle_open prev = (\<not> prev)"

text \<open>
  An instance in state \<open>opn\<close>: the provider hands its children the state and the
  instance's own toggle.
\<close>

definition AccordionItem :: "string \<Rightarrow> bool \<Rightarrow> component list \<Rightarrow> component" where
  "AccordionItem v opn cs =
     (\<lambda>ctx. el ''div''
               (cls ''border border-slate-600 rounded-lg overflow-hidden bg-slate-800 text-white'')
               cs
               (Some \<lparr>open_state = opn, toggle = Toggle v\<rparr>))"

definition minus_sign :: string where
  "minus_sign = [CHR 0xE2, CHR 0x88, CHR 0x92]"

definition trigger_class :: string where
  "trigger_class = ''w-full flex justify-between items-center p-4 text-left font-semibold bg-slate-700 hover:bg-slate-600 transition text-white border-b border-slate-600''"

definition AccordionTrigger :: "component list \<Rightarrow> component" where
  "AccordionTrigger cs =
     (\<lambda>ctx. case ctx of
        None \<Rightarrow> Inl (Error ''AccordionTrigger must be used within an AccordionItem'')
      | Some c \<Rightarrow>
          el ''button''
             \<lparr>className = Some trigger_class, disabled = None, onClick = Some (toggle c),
              key = None\<rparr>
             [el ''span'' no_attrs cs,
              el ''span'' no_attrs [txt_node (if open_state c then minus_sign else ''+'')]]
             ctx)"

definition AccordionContent :: "component list \<Rightarrow> component" where
  "AccordionContent cs =
     (\<lambda>ctx. case ctx of
        None \<Rightarrow> Inl (Error ''AccordionContent must be used within an AccordionItem'')
      | Some c \<Rightarrow>
          if open_state c
          then el ''div'' (cls ''p-4 border-t border-slate-600 bg-slate-800 text-white'') cs ctx
          else Inr (Expr JNull))"

subsection \<open>card.tsx\<close>

text \<open>\<^verbatim>\<open>clsx\<close> of a fixed class and an optional one: falsy arguments are dropped.\<close>

definition clsx :: "string \<Rightarrow> string option \<Rightarrow> string" where
  "clsx c extra =
     (case extra of None \<Rightarrow> c | Some x \<Rightarrow> if x = [] then c else c @ '' '' @ x)"

definition Card :: "string option \<Rightarrow> component list \<Rightarrow> component" where
  "Card className' cs =
     el ''div'' (cls (clsx ''rounded-2xl border bg-white text-black shadow-sm'' className')) cs"

definition CardContent :: "string option \<Rightarrow> component list \<Rightarrow> component" where
  "CardContent className' cs = el ''div'' (cls (clsx ''p-6'' className')) cs"

subsection \<open>ReportViewer.tsx\<close>

text \<open>
  The state React holds for the mounted viewer: the two cells of \<^verbatim>\<open>ReportViewer\<close>,
  the cell of each \<^verbatim>\<open>AccordionItem\<close> instance, what \<^verbatim>\<open>console.error\<close> has
  printed, and whether the one fetch of the mount effect is still to settle. The items
  are mounted only while a record is on display. Before the load their cells hold the
  initial value, as no trigger exists to change them; once the placeholder has replaced
  a record no control is left to bring a record back, so the cells the model keeps
  there are read by no render.
\<close>

record ui_state =
  reports :: "jsval list"
  index :: int
  item_open :: "string \<Rightarrow> bool"
  console :: "(string \<times> string) list"
  fetch_pending :: bool

definition init :: ui_state where
  "init = \<lparr>reports = [], index = 0, item_open = (\<lambda>v. AccordionItem_init),
           console = [], fetch_pending = True\<rparr>"

text \<open>
  \<^verbatim>\<open>x?.map((s, i) => row)\<close> placed as a child: \<^verbatim>\<open>undefined\<close> when \<open>x\<close> is
  null or undefined, the array of rows when \<open>x\<close> is an array, and a
  \<^verbatim>\<open>TypeError\<close> otherwise (no other JSON value has a callable \<^verbatim>\<open>map\<close>).
\<close>

definition optional_map :: "jsval \<Rightarrow> (jsval \<Rightarrow> nat \<Rightarrow> js_error + vnode) \<Rightarrow> js_error + vnode" where
  "optional_map x f =
     (if nullish x then Inr (Expr JUndefined)
      else case x of
             JArr xs \<Rightarrow>
               bind_err (map_err (\<lambda>(s, i). f s i) (zip xs [0..<length xs]))
                        (\<lambda>rows. Inr (Items rows))
           | _ \<Rightarrow> Inl TypeError)"

definition li :: "nat \<Rightarrow> vnode list \<Rightarrow> vnode" where
  "li i cs = Elem ''li'' (no_attrs\<lparr>key := Some i\<rparr>) cs"

text \<open>\<^verbatim>\<open><li key={i}><strong>{s}</strong></li>\<close>\<close>

definition strong_row :: "jsval \<Rightarrow> nat \<Rightarrow> js_error + vnode" where
  "strong_row s i = Inr (li i [Elem ''strong'' no_attrs [Expr s]])"

text \<open>\<^verbatim>\<open><li key={i}>{s}</li>\<close>\<close>

definition plain_row :: "jsval \<Rightarrow> nat \<Rightarrow> js_error + vnode" where
  "plain_row s i = Inr (li i [Expr s])"

text \<open>\<^verbatim>\<open><li key={i}><strong>{s.a}:</strong> {s.b}</li>\<close>\<close>

definition labelled_row :: "string \<Rightarrow> string \<Rightarrow> jsval \<Rightarrow> nat \<Rightarrow> js_error + vnode" where
  "labelled_row a b s i =
     bind_err (get_prop s a) (\<lambda>x.
     bind_err (get_prop s b) (\<lambda>y.
       Inr (li i [Elem ''strong'' no_attrs [Expr x, Text '':''], Text '' '', Expr y])))"

text \<open>
  \<^verbatim>\<open><li key={i}><strong>{r.report_name}</strong> (Page {r.source_page}, Control: {r.source_control})</li>\<close>
\<close>

definition scope_row :: "jsval \<Rightarrow> nat \<Rightarrow> js_error + vnode" where
  "scope_row r i =
     bind_err (get_prop r ''report_name'') (\<lambda>n.
     bind_err (get_prop r ''source_page'') (\<lambda>p.
     bind_err (get_prop r ''source_control'') (\<lambda>c.
       Inr (li i [Elem ''strong'' no_attrs [Expr n], Text '' (Page '', Expr p,
                  Text '', Control: '', Expr c, Text '')'']))))"

text \<open>
  One disclosure section of the viewer: an item holding a trigger with the section's
  label and a content region with the section's body. The body is a JSX expression of
  \<^verbatim>\<open>ReportViewer\<close>, evaluated whether the section is open or not, so what it throws
  is thrown before the item renders.
\<close>

definition section_item ::
  "string \<Rightarrow> string \<Rightarrow> (vnode \<Rightarrow> component) \<Rightarrow> js_error + vnode \<Rightarrow> bool \<Rightarrow> component" where
  "section_item v label body rows opn =
     (\<lambda>ctx. bind_err rows (\<lambda>r.
        AccordionItem v opn
          [AccordionTrigger [txt_node label], AccordionContent [body r]] ctx))"

definition ul :: "string \<Rightarrow> vnode \<Rightarrow> component" where
  "ul c r = el ''ul'' (cls c) [node r]"

definition para :: "vnode \<Rightarrow> component" where
  "para r = el ''p'' no_attrs [node r]"

definition summary_line :: "string \<Rightarrow> jsval \<Rightarrow> component" where
  "summary_line label v =
     el ''p'' no_attrs [el ''strong'' no_attrs [txt_node label], txt_node '' '', expr v]"

definition nav_class :: string where
  "nav_class = ''px-4 py-2 border border-slate-600 rounded disabled:opacity-50 bg-slate-800 hover:bg-slate-700''"

definition loading :: vnode where
  "loading = Elem ''p'' (cls ''p-6 text-white bg-slate-900 min-h-screen'') [Text ''Loading...'']"

definition ReportViewer :: "ui_state \<Rightarrow> component" where
  "ReportViewer st =
     (let report = nth_js (reports st) (index st) in
      if \<not> truthy report then node loading
      else
        el ''div'' (cls ''min-h-screen w-full bg-slate-900 text-white p-6 space-y-6'')
          [el ''div'' (cls ''flex justify-between items-center w-full'')
             [el ''h1'' (cls ''text-2xl font-bold text-cyan-300'') [expr (field report ''file_name'')],
              el ''div'' (cls ''space-x-2'')
                [el ''button''
                    \<lparr>className = Some nav_class, disabled = Some (index st = 0),
                     onClick = Some HandlePrev, key = None\<rparr>
                    [txt_node ''Previous''],
                 el ''button''
                    \<lparr>className = Some nav_class,
                     disabled = Some (index st = int (length (reports st)) - 1),
                     onClick = Some HandleNext, key = None\<rparr>
                    [txt_node ''Next'']]],
           Card None
             [CardContent (Some ''p-4 text-white bg-slate-800 border border-slate-600'')
                [summary_line ''Auditor:'' (field report ''ServiceAuditor''),
                 summary_line ''Report Type:'' (field report ''SOC1ReportType''),
                 summary_line ''Period:'' (field report ''ReportPeriod''),
                 summary_line ''Opinion Date:'' (field report ''AuditorOpinionDate'')]],
           Accordion ''space-y-2''
             [section_item ''AuditorsOpinion'' ''Auditor's Opinion''
                (ul ''list-disc pl-6 space-y-2'')
                (Inr (Expr (field report ''AuditorOpinionType'')))
                (item_open st ''AuditorsOpinion''),
              section_item ''ThirdPartyServiceProvider'' ''Third Party Service Providers''
                (ul ''list-disc pl-6 space-y-2'')
                (optional_map (field report ''ThirdPartyServiceProvider'') strong_row)
                (item_open st ''ThirdPartyServiceProvider''),
              section_item ''subservice'' ''Subservice Providers''
                (ul ''list-disc pl-6'')
                (optional_map (field report ''SubserviceProvider'') plain_row)
                (item_open st ''subservice''),
              section_item ''services'' ''Services Provided''
                (ul ''list-disc pl-6 space-y-2'')
                (optional_map (field report ''ServicesProvided'')
                   (labelled_row ''service'' ''description''))
                (item_open st ''services''),
              section_item ''control-numbers'' ''Control Numbers''
                (ul ''list-disc pl-6 space-y-1'')
                (optional_map (field report ''ControlNumber'') strong_row)
                (item_open st ''control-numbers''),
              section_item ''control-objectives'' ''Control Objectives''
                (ul ''list-disc pl-6 space-y-1'')
                (optional_map (field report ''ControlObjective'')
                   (labelled_row ''id'' ''objective''))
                (item_open st ''control-objectives''),
              section_item ''control-descriptions'' ''Control Descriptions''
                (ul ''list-disc pl-6 space-y-1'')
                (optional_map (field report ''ControlDescription'')
                   (labelled_row ''number'' ''description''))
                (item_open st ''control-descriptions''),
              section_item ''reports-inscope'' ''Reports In Scope''
                (ul ''list-disc pl-6 space-y-1'')
                (optional_map (field report ''ReportsInScope'') scope_row)
                (item_open st ''reports-inscope''),
              section_item ''control-exception'' ''Control Exception Identified''
                para
                (Inr (Expr (field report ''ControlExceptionIdentified'')))
                (item_open st ''control-exception''),
              section_item ''cuecs'' ''CUECs''
                (ul ''list-disc pl-6 space-y-1'')
                (optional_map (field report ''CUECDescription'')
                   (labelled_row ''number'' ''description''))
                (item_open st ''cuecs'')]])"

subsection \<open>App.tsx\<close>

definition App :: "ui_state \<Rightarrow> component" where
  "App st = el ''div'' (cls ''min-h-screen w-full bg-slate-900 text-white px-8'') [ReportViewer st]"

text \<open>
  The tree of the page: the application rendered at the root, under no provider. The
  page itself is that tree once React DOM has mounted it; a child it refuses makes the
  render throw like an exception of a component does, and the application unmounts.
\<close>

definition page :: "ui_state \<Rightarrow> js_error + vnode" where
  "page st = App st None"

definition render :: "ui_state \<Rightarrow> js_error + vnode" where
  "render st = bind_err (page st) (\<lambda>v. if mountable v then Inr v else Inl InvalidChild)"

section \<open>Events\<close>

text \<open>
  \<^verbatim>\<open>handlePrev\<close> and \<^verbatim>\<open>handleNext\<close> hand \<^verbatim>\<open>setIndex\<close> these updaters; the
  index is a small integer, so \<^verbatim>\<open>Math.max\<close> and \<^verbatim>\<open>Math.min\<close> are exact.
\<close>

definition handlePrev :: "int \<Rightarrow> int" where
  "handlePrev prev = max (prev - 1) 0"

definition handleNext :: "jsval list \<Rightarrow> int \<Rightarrow> int" where
  "handleNext rs prev = min (prev + 1) (int (length rs) - 1)"

fun perform :: "action \<Rightarrow> ui_state \<Rightarrow> ui_state" where
  "perform HandlePrev st = st\<lparr>index := handlePrev (index st)\<rparr>"
| "perform HandleNext st = st\<lparr>index := handleNext (reports st) (index st)\<rparr>"
| "perform (Toggle v) st = st\<lparr>item_open := (item_open st)(v := toggle_open (item_open st v))\<rparr>"

text \<open>
  A click reaches a handler only through a control of the page as it is rendered: when
  the render threw, or the control is absent or disabled, nothing happens.
\<close>

definition click :: "ui_state \<Rightarrow> action \<Rightarrow> ui_state" where
  "click st a =
     (case render st of
        Inl e \<Rightarrow> st
      | Inr v \<Rightarrow> if a \<in> set (clickable v) then perform a st else st)"

text \<open>
  The fetch settles at most once: it delivers the parsed array to \<^verbatim>\<open>setReports\<close>, or
  it rejects (network failure, or a body that is not JSON) and the \<^verbatim>\<open>catch\<close> prints
  the error.
\<close>

datatype event = FetchResolved "jsval list" | FetchRejected string | Click action

fun step :: "ui_state \<Rightarrow> event \<Rightarrow> ui_state" where
  "step st (FetchResolved data) =
     (if fetch_pending st then st\<lparr>reports := data, fetch_pending := False\<rparr> else st)"
| "step st (FetchRejected err) =
     (if fetch_pending st
      then st\<lparr>console := console st @ [(''Failed to load JSON:'', err)], fetch_pending := False\<rparr>
      else st)"
| "step st (Click a) = click st a"

definition run :: "ui_state \<Rightarrow> event list \<Rightarrow> ui_state" where
  "run st es = foldl step st es"

section \<open>Notions used to state and prove the properties\<close>

text \<open>The record on display.\<close>

definition current :: "ui_state \<Rightarrow> jsval" where
  "current st = nth_js (reports st) (index st)"

text \<open>
  What a section item renders once its body expression has its value \<open>b\<close>: the
  trigger, and the content region when the instance is open (lemmas
  \<open>section_item_ul\<close> and \<open>section_item_p\<close>).
\<close>

definition item_view :: "string \<Rightarrow> string \<Rightarrow> vnode \<Rightarrow> bool \<Rightarrow> vnode" where
  "item_view v label b opn =
     Elem ''div'' (cls ''border border-slate-600 rounded-lg overflow-hidden bg-slate-800 text-white'')
       [Elem ''button''
          \<lparr>className = Some trigger_class, disabled = None, onClick = Some (Toggle v), key = None\<rparr>
          [Elem ''span'' no_attrs [Text label],
           Elem ''span'' no_attrs [Text (if opn then minus_sign else ''+'')]],
        if opn
        then Elem ''div'' (cls ''p-4 border-t border-slate-600 bg-slate-800 text-white'') [b]
        else Expr JNull]"

text \<open>The \<^verbatim>\<open>value\<close> props of the ten items the viewer mounts, in order.\<close>

definition item_values :: "string list" where
  "item_values = [''AuditorsOpinion'', ''ThirdPartyServiceProvider'', ''subservice'', ''services'',
     ''control-numbers'', ''control-objectives'', ''control-descriptions'', ''reports-inscope'',
     ''control-exception'', ''cuecs'']"

text \<open>Rows carry no control: their elements are list items and emphasised text.\<close>

definition inert :: "vnode \<Rightarrow> bool" where
  "inert v = list_all (\<lambda>e. (tag e = ''li'' \<or> tag e = ''strong'') \<and> onClick (attributes e) = None)
               (elements v)"

text \<open>
  A state is viewable when its current record is truthy and the page renders; then the
  page shows that record, and otherwise it shows the placeholder or nothing at all.
\<close>

definition viewable :: "ui_state \<Rightarrow> bool" where
  "viewable st \<longleftrightarrow> truthy (current st) \<and> \<not> isl (render st)"

text \<open>The handlers a user can reach in a state (lemma \<open>click_eq\<close>).\<close>

definition available :: "ui_state \<Rightarrow> action list" where
  "available st =
     (if viewable st
      then (if index st = 0 then [] else [HandlePrev])
           @ (if index st = int (length (reports st)) - 1 then [] else [HandleNext])
           @ map Toggle item_values
      else [])"

text \<open>
  A report record of the shape the data model lists: an object whose displayed scalars
  are primitive values or absent, whose plain collections, where present, are arrays of
  primitive values, and whose structured collections, where present, are arrays of
  entries (never \<^verbatim>\<open>null\<close>) whose displayed fields are primitive or absent.
\<close>

fun is_object :: "jsval \<Rightarrow> bool" where
  "is_object (JObj kvs) = True"
| "is_object v = False"

fun primitive :: "jsval \<Rightarrow> bool" where
  "primitive (JArr xs) = False"
| "primitive (JObj kvs) = False"
| "primitive v = True"

definition scalar_keys :: "string list" where
  "scalar_keys = [''file_name'', ''ServiceAuditor'', ''SOC1ReportType'', ''ReportPeriod'',
     ''AuditorOpinionDate'', ''AuditorOpinionType'', ''ControlExceptionIdentified'']"

definition list_ok :: "jsval \<Rightarrow> bool" where
  "list_ok x =
     (nullish x \<or> (case x of JArr xs \<Rightarrow> list_all primitive xs | _ \<Rightarrow> False))"

definition records_ok :: "string list \<Rightarrow> jsval \<Rightarrow> bool" where
  "records_ok ks x =
     (nullish x \<or>
      (case x of
         JArr xs \<Rightarrow> list_all (\<lambda>s. \<not> nullish s \<and> list_all (\<lambda>k. primitive (field s k)) ks) xs
       | _ \<Rightarrow> False))"

definition valid_record :: "jsval \<Rightarrow> bool" where
  "valid_record r \<longleftrightarrow>
     is_object r \<and>
     list_all (\<lambda>k. primitive (field r k)) scalar_keys \<and>
     list_ok (field r ''ThirdPartyServiceProvider'') \<and>
     list_ok (field r ''SubserviceProvider'') \<and>
     records_ok [''service'', ''description''] (field r ''ServicesProvided'') \<and>
     list_ok (field r ''ControlNumber'') \<and>
     records_ok [''id'', ''objective''] (field r ''ControlObjective'') \<and>
     records_ok [''number'', ''description''] (field r ''ControlDescription'') \<and>
     records_ok [''report_name'', ''source_page'', ''source_control''] (field r ''ReportsInScope'') \<and>
     records_ok [''number'', ''description''] (field r ''CUECDescription'')"

definition valid_reports :: "jsval list \<Rightarrow> bool" where
  "valid_reports rs = list_all valid_record rs"

text \<open>The keys of the eight collections the viewer maps over.\<close>

definition collection_keys :: "string list" where
  "collection_keys = [''ThirdPartyServiceProvider'', ''SubserviceProvider'', ''ServicesProvided'',
     ''ControlNumber'', ''ControlObjective'', ''ControlDescription'', ''ReportsInScope'',
     ''CUECDescription'']"

text \<open>The page while no record is on display.\<close>

definition page_loading :: vnode where
  "page_loading = Elem ''div'' (cls ''min-h-screen w-full bg-slate-900 text-white px-8'') [loading]"

text \<open>Events a user causes, as opposed to the settling of the fetch.\<close>

fun is_click :: "event \<Rightarrow> bool" where
  "is_click (Click a) = True"
| "is_click e = False"

text \<open>
  The invariant of navigation: the index is 0 or a position of the array, and nothing
  is loaded while the fetch is pending.
\<close>

definition nav_inv :: "ui_state \<Rightarrow> bool" where
  "nav_inv st \<longleftrightarrow>
     0 \<le> index st \<and> (index st = 0 \<or> index st < int (length (reports st))) \<and>
     (fetch_pending st \<longrightarrow> reports st = [])"

text \<open>
  Sample data: the record of the specification's scenario, a second record, and the
  state of a viewer that has loaded an array and shows the record at a given index.
\<close>

definition sample_a :: jsval where
  "sample_a = JObj [(''file_name'', JStr ''A.pdf''), (''ServiceAuditor'', JStr ''Acme LLP''),
                    (''ControlNumber'', JArr [JStr ''C1'', JStr ''C2''])]"

definition sample_b :: jsval where
  "sample_b = JObj [(''file_name'', JStr ''B.pdf''),
                    (''ServicesProvided'', JArr [JObj [(''service'', JStr ''Payroll'')]])]"

definition sample_c :: jsval where
  "sample_c = JObj [(''ServiceAuditor'', JStr ''Acme LLP'')]"

definition loaded :: "jsval list \<Rightarrow> int \<Rightarrow> ui_state" where
  "loaded rs i = \<lparr>reports = rs, index = i, item_open = (\<lambda>v. AccordionItem_init),
                  console = [], fetch_pending = False\<rparr>"

section \<open>Rendering lemmas\<close>

lemma bind_err_Inl [simp]: "bind_err (Inl e) f = Inl e"
  by (simp add: bind_err_def)

lemma bind_err_Inr [simp]: "bind_err (Inr x) f = f x"
  by (simp add: bind_err_def)

lemma bind_err_eq_Inr: "bind_err m f = Inr y \<longleftrightarrow> (\<exists>x. m = Inr x \<and> f x = Inr y)"
  by (cases m) simp_all

lemma node_apply [simp]: "node v ctx = Inr v"
  by (simp add: node_def)

lemma txt_node_apply [simp]: "txt_node s ctx = Inr (Text s)"
  by (simp add: txt_node_def)

lemma expr_apply [simp]: "expr v ctx = Inr (Expr v)"
  by (simp add: expr_def)

lemma section_item_ul:
  "section_item k l (ul c) rows opn ctx =
     bind_err rows (\<lambda>r. Inr (item_view k l (Elem ''ul'' (cls c) [r]) opn))"
  by (cases rows)
     (simp_all add: section_item_def AccordionItem_def AccordionTrigger_def AccordionContent_def
        ul_def item_view_def trigger_class_def el_def)

lemma section_item_p:
  "section_item k l para rows opn ctx =
     bind_err rows (\<lambda>r. Inr (item_view k l (Elem ''p'' no_attrs [r]) opn))"
  by (cases rows)
     (simp_all add: section_item_def AccordionItem_def AccordionTrigger_def AccordionContent_def
        item_view_def trigger_class_def el_def para_def)

lemma elems_by_tag_fun: "elems_by_tag t = (\<lambda>v. filter (\<lambda>e. tag e = t) (elements v))"
  by (rule ext) (simp add: elems_by_tag_def)

lemma buttons_labelled_fun:
  "buttons_labelled l = (\<lambda>v. filter (\<lambda>e. children e = [Text l]) (elems_by_tag ''button'' v))"
  by (rule ext) (simp add: buttons_labelled_def)

lemma clickable_fun:
  "clickable = (\<lambda>v. concat (map (\<lambda>e. case onClick (attributes e) of
                          None \<Rightarrow> []
                        | Some a \<Rightarrow> if disabled (attributes e) = Some True then [] else [a])
                 (elements v)))"
  by (rule ext) (simp add: clickable_def)

lemma elems_by_tag_Elem [simp]:
  "elems_by_tag t (Elem t' a cs) =
     (if t' = t then [Elem t' a cs] else []) @ concat (map (elems_by_tag t) cs)"
  by (simp add: elems_by_tag_fun filter_concat comp_def)

lemma elems_by_tag_leaf [simp]:
  "elems_by_tag t (Text s) = []" "elems_by_tag t (Expr x) = []"
  "elems_by_tag t (Items vs) = concat (map (elems_by_tag t) vs)"
  by (simp_all add: elems_by_tag_fun filter_concat comp_def)

lemma buttons_labelled_Elem [simp]:
  "buttons_labelled l (Elem t a cs) =
     (if t = ''button'' \<and> cs = [Text l] then [Elem t a cs] else [])
     @ concat (map (buttons_labelled l) cs)"
  by (simp add: buttons_labelled_fun filter_concat comp_def)

lemma buttons_labelled_leaf [simp]:
  "buttons_labelled l (Text s) = []" "buttons_labelled l (Expr x) = []"
  "buttons_labelled l (Items vs) = concat (map (buttons_labelled l) vs)"
  by (simp_all add: buttons_labelled_fun filter_concat comp_def)

lemma concat_map_concat:
  "concat (map f (concat (map g cs))) = concat (map (\<lambda>v. concat (map f (g v))) cs)"
  by (induction cs) simp_all

lemma clickable_Elem [simp]:
  "clickable (Elem t a cs) =
     (case onClick a of None \<Rightarrow> [] | Some x \<Rightarrow> if disabled a = Some True then [] else [x])
     @ concat (map clickable cs)"
  by (simp add: clickable_fun concat_map_concat split: option.splits)

lemma clickable_leaf [simp]:
  "clickable (Text s) = []" "clickable (Expr x) = []"
  "clickable (Items vs) = concat (map clickable vs)"
  by (simp_all add: clickable_fun concat_map_concat)

lemma inert_queries:
  assumes "inert r"
  shows "elems_by_tag ''h1'' r = []" and "elems_by_tag ''button'' r = []"
    and "buttons_labelled l r = []" and "clickable r = []"
  using assms
  by (auto simp: inert_def elems_by_tag_def buttons_labelled_def clickable_def list_all_iff
      filter_empty_conv split: option.splits)

lemma item_view_queries:
  assumes "inert r" and "t \<noteq> ''h1''" and "t \<noteq> ''button''"
  shows "elems_by_tag ''h1'' (item_view k l (Elem t a [r]) opn) = []"
    and "buttons_labelled x (item_view k l (Elem t a [r]) opn) = []"
    and "onClick a = None \<Longrightarrow> clickable (item_view k l (Elem t a [r]) opn) = [Toggle k]"
  using assms by (simp_all add: item_view_def inert_queries cls_def no_attrs_def)

lemma map_err_all:
  assumes "map_err f xs = Inr ys" and "\<And>x y. f x = Inr y \<Longrightarrow> P y"
  shows "list_all P ys"
  using assms(1)
proof (induction xs arbitrary: ys)
  case Nil
  then show ?case by simp
next
  case (Cons x xs)
  then show ?case by (auto simp: bind_err_eq_Inr assms(2))
qed

lemma inert_Expr [simp]: "inert (Expr x)"
  by (simp add: inert_def)

lemma inert_Items: "list_all inert vs \<Longrightarrow> inert (Items vs)"
  by (induction vs) (simp_all add: inert_def)

lemma optional_map_inert:
  assumes "optional_map x f = Inr r" and "\<And>s i v. f s i = Inr v \<Longrightarrow> inert v"
  shows "inert r"
proof (cases "nullish x")
  case True
  with assms(1) show ?thesis by (auto simp: optional_map_def)
next
  case False
  with assms(1) obtain xs rows where
    "map_err (\<lambda>(s, i). f s i) (zip xs [0..<length xs]) = Inr rows" and "r = Items rows"
    by (auto simp: optional_map_def bind_err_eq_Inr split: jsval.splits)
  moreover have "\<And>p y. (\<lambda>(s, i). f s i) p = Inr y \<Longrightarrow> inert y"
    using assms(2) by (auto split: prod.splits)
  ultimately show ?thesis
    using map_err_all [where P = inert] inert_Items by blast
qed

lemma rows_inert:
  "strong_row s i = Inr v \<Longrightarrow> inert v"
  "plain_row s i = Inr v \<Longrightarrow> inert v"
  "labelled_row a b s i = Inr v \<Longrightarrow> inert v"
  "scope_row s i = Inr v \<Longrightarrow> inert v"
  by (auto simp: strong_row_def plain_row_def labelled_row_def scope_row_def li_def inert_def
      no_attrs_def bind_err_eq_Inr)

lemma optional_map_rows_inert:
  "optional_map x strong_row = Inr r \<Longrightarrow> inert r"
  "optional_map x plain_row = Inr r \<Longrightarrow> inert r"
  "optional_map x (labelled_row a b) = Inr r \<Longrightarrow> inert r"
  "optional_map x scope_row = Inr r \<Longrightarrow> inert r"
  by (erule optional_map_inert, erule rows_inert)+

lemma exprs_fun: "mountable = (\<lambda>v. list_all displayable (exprs v))"
  by (rule ext) (simp add: mountable_def)

lemma mountable_Elem [simp]: "mountable (Elem t a cs) = list_all mountable cs"
  by (induction cs) (simp_all add: mountable_def)

lemma mountable_leaf [simp]:
  "mountable (Text s)" "mountable (Expr x) = displayable x"
  "mountable (Items vs) = list_all mountable vs"
  by (induction vs) (simp_all add: mountable_def)

lemma primitive_displayable [simp]: "primitive v \<Longrightarrow> displayable v"
  by (cases v) simp_all

lemma mountable_item_view: "mountable (item_view k l b opn) = (opn \<longrightarrow> mountable b)"
  by (simp add: item_view_def)

lemma render_Inr_page: "render st = Inr v \<Longrightarrow> page st = Inr v"
  by (auto simp: render_def bind_err_eq_Inr split: if_splits)

lemma render_Inr_mountable: "render st = Inr v \<Longrightarrow> mountable v"
  by (auto simp: render_def bind_err_eq_Inr split: if_splits)

lemma render_loading:
  assumes "\<not> truthy (nth_js (reports st) (index st))"
  shows "render st = Inr (Elem ''div'' (cls ''min-h-screen w-full bg-slate-900 text-white px-8'') [loading])"
  using assms by (simp add: render_def page_def App_def ReportViewer_def el_def loading_def)

lemma render_report_h1:
  assumes "truthy (nth_js (reports st) (index st))" and "render st = Inr v"
  shows "elems_by_tag ''h1'' v =
           [Elem ''h1'' (cls ''text-2xl font-bold text-cyan-300'')
              [Expr (field (nth_js (reports st) (index st)) ''file_name'')]]"
  using assms(1) render_Inr_page [OF assms(2)]
  apply (clarsimp simp: page_def App_def ReportViewer_def Let_def Card_def CardContent_def
      Accordion_def summary_line_def section_item_ul section_item_p bind_err_eq_Inr el_def
      dest!: optional_map_rows_inert)
  apply (simp add: item_view_queries)
  done

lemma render_report_prev:
  assumes "truthy (nth_js (reports st) (index st))" and "render st = Inr v"
  shows "buttons_labelled ''Previous'' v =
           [Elem ''button''
              \<lparr>className = Some nav_class, disabled = Some (index st = 0),
               onClick = Some HandlePrev, key = None\<rparr> [Text ''Previous'']]"
  using assms(1) render_Inr_page [OF assms(2)]
  apply (clarsimp simp: page_def App_def ReportViewer_def Let_def Card_def CardContent_def
      Accordion_def summary_line_def section_item_ul section_item_p bind_err_eq_Inr el_def
      dest!: optional_map_rows_inert)
  apply (simp add: item_view_queries)
  done

lemma render_report_next:
  assumes "truthy (nth_js (reports st) (index st))" and "render st = Inr v"
  shows "buttons_labelled ''Next'' v =
           [Elem ''button''
              \<lparr>className = Some nav_class,
               disabled = Some (index st = int (length (reports st)) - 1),
               onClick = Some HandleNext, key = None\<rparr> [Text ''Next'']]"
  using assms(1) render_Inr_page [OF assms(2)]
  apply (clarsimp simp: page_def App_def ReportViewer_def Let_def Card_def CardContent_def
      Accordion_def summary_line_def section_item_ul section_item_p bind_err_eq_Inr el_def
      dest!: optional_map_rows_inert)
  apply (simp add: item_view_queries)
  done

lemma attrs_simps [simp]:
  "onClick (cls c) = None" "disabled (cls c) = None"
  "onClick no_attrs = None" "disabled no_attrs = None"
  by (simp_all add: cls_def no_attrs_def)

lemma render_report_clickable:
  assumes "truthy (nth_js (reports st) (index st))" and "render st = Inr v"
  shows "clickable v =
           (if index st = 0 then [] else [HandlePrev])
           @ (if index st = int (length (reports st)) - 1 then [] else [HandleNext])
           @ map Toggle item_values"
  using assms(1) render_Inr_page [OF assms(2)]
  apply (clarsimp simp: page_def App_def ReportViewer_def Let_def Card_def CardContent_def
      Accordion_def summary_line_def section_item_ul section_item_p bind_err_eq_Inr el_def
      dest!: optional_map_rows_inert)
  apply (simp add: item_view_queries item_values_def)
  done

lemma not_isl_iff: "\<not> isl m \<longleftrightarrow> (\<exists>x. m = Inr x)"
  by (cases m) simp_all

lemma render_rejects_object_child:
  "render (loaded [JObj [(''file_name'', JObj [])]] 0) = Inl InvalidChild"
  by (simp add: render_def page_def App_def ReportViewer_def Let_def Card_def CardContent_def
      Accordion_def summary_line_def section_item_ul section_item_p el_def nth_js_def
      mountable_item_view loaded_def optional_map_def)

lemma viewable_iff: "viewable st \<longleftrightarrow> truthy (current st) \<and> (\<exists>v. render st = Inr v)"
  by (simp add: viewable_def not_isl_iff)

lemma click_eq: "click st a = (if a \<in> set (available st) then perform a st else st)"
proof (cases "render st")
  case (Inl e)
  then have "\<not> viewable st"
    by (simp add: viewable_def)
  with Inl show ?thesis by (simp add: click_def available_def)
next
  case (Inr v)
  show ?thesis
  proof (cases "truthy (current st)")
    case True
    then have "viewable st"
      using Inr by (simp add: viewable_def)
    moreover have "clickable v =
           (if index st = 0 then [] else [HandlePrev])
           @ (if index st = int (length (reports st)) - 1 then [] else [HandleNext])
           @ map Toggle item_values"
      using True Inr by (intro render_report_clickable) (simp_all add: current_def)
    ultimately show ?thesis using Inr by (simp add: click_def available_def)
  next
    case False
    then have "clickable v = []"
      using Inr render_loading [of st] by (auto simp: current_def loading_def)
    with False Inr show ?thesis by (simp add: click_def available_def viewable_def)
  qed
qed

lemma viewable_in_range:
  assumes "viewable st"
  shows "0 \<le> index st" and "index st < int (length (reports st))"
  using assms by (auto simp: viewable_def current_def nth_js_def split: if_splits)

lemma click_prev:
  "click st HandlePrev = (if viewable st then st\<lparr>index := handlePrev (index st)\<rparr> else st)"
  by (simp add: click_eq available_def handlePrev_def)

lemma click_next:
  "click st HandleNext =
     (if viewable st then st\<lparr>index := handleNext (reports st) (index st)\<rparr> else st)"
  by (simp add: click_eq available_def handleNext_def)

lemma click_toggle:
  "click st (Toggle k) =
     (if viewable st \<and> k \<in> set item_values
      then st\<lparr>item_open := (item_open st)(k := toggle_open (item_open st k))\<rparr> else st)"
  by (auto simp: click_eq available_def)

lemma map_err_ok:
  assumes "\<And>x. x \<in> set xs \<Longrightarrow> \<exists>y. f x = Inr y"
  shows "\<exists>ys. map_err f xs = Inr ys"
  using assms
proof (induction xs)
  case Nil
  then show ?case by simp
next
  case (Cons x xs)
  then obtain y ys where "f x = Inr y" and "map_err f xs = Inr ys"
    by (meson list.set_intros)
  then show ?case by simp
qed

lemma optional_map_ok:
  assumes "nullish x \<or> (\<exists>xs. x = JArr xs \<and> (\<forall>s\<in>set xs. \<forall>i. \<exists>v. f s i = Inr v))"
  shows "\<not> isl (optional_map x f)"
proof (cases "nullish x")
  case True
  then show ?thesis by (simp add: optional_map_def)
next
  case False
  with assms obtain xs where x: "x = JArr xs" and ok: "\<forall>s\<in>set xs. \<forall>i. \<exists>v. f s i = Inr v"
    by blast
  have "\<exists>ys. map_err (\<lambda>(s, i). f s i) (zip xs [0..<length xs]) = Inr ys"
    by (rule map_err_ok) (use ok in \<open>auto dest: set_zip_leftD\<close>)
  then show ?thesis using x by (auto simp: optional_map_def)
qed

lemma map_err_all_set:
  assumes "map_err f xs = Inr ys" and "\<And>x y. x \<in> set xs \<Longrightarrow> f x = Inr y \<Longrightarrow> P y"
  shows "list_all P ys"
  using assms
proof (induction xs arbitrary: ys)
  case Nil
  then show ?case by simp
next
  case (Cons x xs)
  from Cons.prems(1) obtain y zs where y: "f x = Inr y" and zs: "map_err f xs = Inr zs"
    and ys: "ys = y # zs"
    by (auto simp: bind_err_eq_Inr)
  have "P y"
    using Cons.prems(2) [of x y] y by simp
  moreover have "list_all P zs"
  proof (rule Cons.IH [OF zs])
    fix a z
    assume "a \<in> set xs" and "f a = Inr z"
    then show "P z"
      using Cons.prems(2) [of a z] by simp
  qed
  ultimately show ?case using ys by simp
qed

lemma optional_map_mountable:
  assumes "optional_map x f = Inr r"
    and "\<And>xs s i v. x = JArr xs \<Longrightarrow> s \<in> set xs \<Longrightarrow> f s i = Inr v \<Longrightarrow> mountable v"
  shows "mountable r"
proof (cases "nullish x")
  case True
  with assms(1) show ?thesis by (auto simp: optional_map_def)
next
  case False
  with assms(1) obtain xs rows where x: "x = JArr xs"
    and rows: "map_err (\<lambda>(s, i). f s i) (zip xs [0..<length xs]) = Inr rows" and r: "r = Items rows"
    by (auto simp: optional_map_def bind_err_eq_Inr split: jsval.splits)
  have "list_all mountable rows"
    using rows
  proof (rule map_err_all_set)
    fix p y
    assume p: "p \<in> set (zip xs [0..<length xs])" and y: "(\<lambda>(s, i). f s i) p = Inr y"
    obtain s i where si: "p = (s, i)"
      by (cases p)
    with p have "s \<in> set xs"
      by (auto dest: set_zip_leftD)
    then show "mountable y"
      using assms(2) [OF x, of s i y] y si by simp
  qed
  with r show ?thesis by simp
qed

lemma list_ok_rows:
  assumes "list_ok x"
  shows "\<exists>r. optional_map x strong_row = Inr r \<and> mountable r"
    and "\<exists>r. optional_map x plain_row = Inr r \<and> mountable r"
proof -
  have "\<not> isl (optional_map x strong_row)" and "\<not> isl (optional_map x plain_row)"
    using assms
    by (auto intro!: optional_map_ok simp: list_ok_def strong_row_def plain_row_def
        split: jsval.splits)
  then obtain r1 r2 where r: "optional_map x strong_row = Inr r1" "optional_map x plain_row = Inr r2"
    by (auto simp: not_isl_iff)
  have "mountable r1"
  proof (rule optional_map_mountable [OF r(1)])
    fix xs s i v
    assume "x = JArr xs" and "s \<in> set xs" and "strong_row s i = Inr v"
    with assms show "mountable v"
      by (auto simp: list_ok_def strong_row_def li_def list_all_iff)
  qed
  moreover have "mountable r2"
  proof (rule optional_map_mountable [OF r(2)])
    fix xs s i v
    assume "x = JArr xs" and "s \<in> set xs" and "plain_row s i = Inr v"
    with assms show "mountable v"
      by (auto simp: list_ok_def plain_row_def li_def list_all_iff)
  qed
  ultimately show "\<exists>r. optional_map x strong_row = Inr r \<and> mountable r"
    and "\<exists>r. optional_map x plain_row = Inr r \<and> mountable r"
    using r by simp_all
qed

lemma records_ok_labelled:
  assumes "records_ok [a, b] x"
  shows "\<exists>r. optional_map x (labelled_row a b) = Inr r \<and> mountable r"
proof -
  have "\<not> isl (optional_map x (labelled_row a b))"
    using assms
    by (auto intro!: optional_map_ok simp: records_ok_def labelled_row_def get_prop_def
        list_all_iff split: jsval.splits)
  then obtain r where r: "optional_map x (labelled_row a b) = Inr r"
    by (auto simp: not_isl_iff)
  have "mountable r"
  proof (rule optional_map_mountable [OF r])
    fix xs s i v
    assume "x = JArr xs" and "s \<in> set xs" and "labelled_row a b s i = Inr v"
    with assms show "mountable v"
      by (auto simp: records_ok_def labelled_row_def get_prop_def li_def list_all_iff
          bind_err_eq_Inr split: if_splits)
  qed
  with r show ?thesis by simp
qed

lemma records_ok_scope:
  assumes "records_ok [''report_name'', ''source_page'', ''source_control''] x"
  shows "\<exists>r. optional_map x scope_row = Inr r \<and> mountable r"
proof -
  have "\<not> isl (optional_map x scope_row)"
    using assms
    by (auto intro!: optional_map_ok simp: records_ok_def scope_row_def get_prop_def
        list_all_iff split: jsval.splits)
  then obtain r where r: "optional_map x scope_row = Inr r"
    by (auto simp: not_isl_iff)
  have "mountable r"
  proof (rule optional_map_mountable [OF r])
    fix xs s i v
    assume "x = JArr xs" and "s \<in> set xs" and "scope_row s i = Inr v"
    with assms show "mountable v"
      by (auto simp: records_ok_def scope_row_def get_prop_def li_def list_all_iff
          bind_err_eq_Inr split: if_splits)
  qed
  with r show ?thesis by simp
qed

lemma valid_record_truthy: "valid_record r \<Longrightarrow> truthy r"
  by (auto simp: valid_record_def elim: is_object.elims)

lemma valid_record_render:
  assumes "valid_record (nth_js (reports st) (index st))"
  shows "\<exists>v. render st = Inr v"
proof -
  let ?r = "nth_js (reports st) (index st)"
  note v = assms [unfolded valid_record_def]
  have t: "truthy ?r"
    using assms by (rule valid_record_truthy)
  have s: "list_all (\<lambda>k. primitive (field ?r k)) scalar_keys"
    using v by simp
  obtain r1 where r1: "optional_map (field ?r ''ThirdPartyServiceProvider'') strong_row = Inr r1"
    and m1: "mountable r1"
    using list_ok_rows(1) v by blast
  obtain r2 where r2: "optional_map (field ?r ''SubserviceProvider'') plain_row = Inr r2"
    and m2: "mountable r2"
    using list_ok_rows(2) v by blast
  obtain r3 where r3: "optional_map (field ?r ''ServicesProvided'')
                         (labelled_row ''service'' ''description'') = Inr r3"
    and m3: "mountable r3"
    using records_ok_labelled v by blast
  obtain r4 where r4: "optional_map (field ?r ''ControlNumber'') strong_row = Inr r4"
    and m4: "mountable r4"
    using list_ok_rows(1) v by blast
  obtain r5 where r5: "optional_map (field ?r ''ControlObjective'')
                         (labelled_row ''id'' ''objective'') = Inr r5"
    and m5: "mountable r5"
    using records_ok_labelled v by blast
  obtain r6 where r6: "optional_map (field ?r ''ControlDescription'')
                         (labelled_row ''number'' ''description'') = Inr r6"
    and m6: "mountable r6"
    using records_ok_labelled v by blast
  obtain r7 where r7: "optional_map (field ?r ''ReportsInScope'') scope_row = Inr r7"
    and m7: "mountable r7"
    using records_ok_scope v by blast
  obtain r8 where r8: "optional_map (field ?r ''CUECDescription'')
                         (labelled_row ''number'' ''description'') = Inr r8"
    and m8: "mountable r8"
    using records_ok_labelled v by blast
  show ?thesis
    using t s
    by (simp add: render_def page_def App_def ReportViewer_def Let_def Card_def CardContent_def
        Accordion_def summary_line_def section_item_ul section_item_p el_def scalar_keys_def
        mountable_item_view r1 r2 r3 r4 r5 r6 r7 r8 m1 m2 m3 m4 m5 m6 m7 m8)
qed

lemma valid_current_viewable: "valid_record (current st) \<Longrightarrow> viewable st"
  using valid_record_render [of st] valid_record_truthy [of "current st"]
  by (simp add: viewable_iff current_def)

lemma valid_samples: "valid_record sample_a" "valid_record sample_b"
  by (simp_all add: valid_record_def sample_a_def sample_b_def list_ok_def records_ok_def
      scalar_keys_def)

lemma loaded_simps [simp]:
  "reports (loaded rs i) = rs" "index (loaded rs i) = i" "item_open (loaded rs i) k = False"
  "console (loaded rs i) = []" "fetch_pending (loaded rs i) = False"
  by (simp_all add: loaded_def AccordionItem_init_def)

lemma viewable_sample: "viewable (loaded [sample_a] 0)"
  by (rule valid_current_viewable) (simp add: current_def nth_js_def valid_samples)

lemma viewable_loaded:
  assumes "0 \<le> i" and "i < int (length rs)" and "valid_record (rs ! nat i)"
  shows "viewable (loaded rs i)"
  using assms by (intro valid_current_viewable) (simp add: current_def nth_js_def)


section \<open>Events and runs\<close>

lemma run_Nil [simp]: "run st [] = st"
  by (simp add: run_def)

lemma run_Cons [simp]: "run st (e # es) = run (step st e) es"
  by (simp add: run_def)

lemma run_append [simp]: "run st (es @ es') = run (run st es) es'"
  by (simp add: run_def)

lemma nth_js_Nil [simp]: "nth_js [] i = JUndefined"
  by (auto simp: nth_js_def)

lemma empty_not_viewable: "reports st = [] \<Longrightarrow> \<not> viewable st"
  by (simp add: viewable_def current_def)

lemma click_empty: "reports st = [] \<Longrightarrow> click st a = st"
  by (simp add: click_eq available_def empty_not_viewable)

lemma clicks_before_load:
  assumes "reports st = []" and "list_all is_click es"
  shows "run st es = st"
  using assms(2)
proof (induction es)
  case Nil
  then show ?case by simp
next
  case (Cons e es)
  then show ?case by (cases e) (simp_all add: click_empty assms(1))
qed

lemma settled_empty_stuck:
  assumes "reports st = []" and "\<not> fetch_pending st"
  shows "run st es = st"
proof (induction es)
  case Nil
  then show ?case by simp
next
  case (Cons e es)
  then show ?case using assms by (cases e) (simp_all add: click_empty)
qed

lemma render_empty: "reports st = [] \<Longrightarrow> render st = Inr page_loading"
  using render_loading [of st] by (simp add: page_loading_def)

lemma run_fetch_rejected:
  assumes "list_all is_click es1"
  shows "run init (es1 @ FetchRejected err # es2)
           = init\<lparr>console := [(''Failed to load JSON:'', err)], fetch_pending := False\<rparr>"
proof -
  have "run init es1 = init"
    using assms by (intro clicks_before_load) (simp_all add: init_def)
  then have "run init (es1 @ FetchRejected err # es2)
               = run (init\<lparr>console := [(''Failed to load JSON:'', err)], fetch_pending := False\<rparr>) es2"
    by (simp add: init_def)
  also have "\<dots> = init\<lparr>console := [(''Failed to load JSON:'', err)], fetch_pending := False\<rparr>"
    by (intro settled_empty_stuck) (simp_all add: init_def)
  finally show ?thesis .
qed

lemma run_fetch_resolved:
  assumes "list_all is_click es1"
  shows "run init (es1 @ [FetchResolved rs]) = init\<lparr>reports := rs, fetch_pending := False\<rparr>"
proof -
  have "run init es1 = init"
    using assms by (intro clicks_before_load) (simp_all add: init_def)
  then show ?thesis by (simp add: init_def)
qed

lemma valid_reports_nth:
  assumes "valid_reports rs" and "0 \<le> i" and "i < int (length rs)"
  shows "valid_record (nth_js rs i)"
  using assms by (simp add: valid_reports_def nth_js_def list_all_length)

lemma valid_viewable:
  assumes "valid_reports (reports st)" and "0 \<le> index st" and "index st < int (length (reports st))"
  shows "viewable st"
  using valid_reports_nth [OF assms] by (intro valid_current_viewable) (simp add: current_def)

lemma viewable_title:
  assumes "viewable st"
  shows "\<exists>v. render st = Inr v \<and>
           elems_by_tag ''h1'' v =
             [Elem ''h1'' (cls ''text-2xl font-bold text-cyan-300'')
                [Expr (field (nth_js (reports st) (index st)) ''file_name'')]]"
proof -
  from assms obtain v where t: "truthy (nth_js (reports st) (index st))"
    and v: "render st = Inr v"
    by (auto simp: viewable_iff current_def)
  with render_report_h1 [OF t v] show ?thesis by blast
qed

lemma valid_two: "valid_reports [sample_a, sample_b]"
  by (simp add: valid_reports_def valid_samples)

lemma step_nav_inv:
  assumes "nav_inv st"
  shows "nav_inv (step st e)"
proof (cases e)
  case (FetchResolved rs)
  with assms show ?thesis by (auto simp: nav_inv_def)
next
  case (FetchRejected err)
  with assms show ?thesis by (auto simp: nav_inv_def)
next
  case (Click a)
  show ?thesis
  proof (cases "viewable st")
    case True
    then have "0 \<le> index st" and "index st < int (length (reports st))"
      by (rule viewable_in_range)+
    moreover from True have "\<not> fetch_pending st"
      using assms empty_not_viewable by (auto simp: nav_inv_def)
    ultimately show ?thesis
      using Click True
      by (cases a) (auto simp: nav_inv_def click_prev click_next click_toggle
          handlePrev_def handleNext_def)
  next
    case False
    with Click assms show ?thesis by (simp add: click_eq available_def)
  qed
qed

lemma run_nav_inv: "nav_inv st \<Longrightarrow> nav_inv (run st es)"
  by (induction es arbitrary: st) (simp_all add: step_nav_inv)

lemma nav_inv_init: "nav_inv init"
  by (simp add: nav_inv_def init_def)

lemma reports_click [simp]: "reports (click st a) = reports st"
  by (cases a) (simp_all add: click_eq)

lemma viewable_two:
  "viewable (loaded [sample_a, sample_b] 0)" "viewable (loaded [sample_a, sample_b] 1)"
  by (rule valid_viewable; simp add: valid_two)+

lemma run_two:
  "run init [FetchResolved [sample_a, sample_b], Click HandleNext] = loaded [sample_a, sample_b] 1"
proof -
  have "step init (FetchResolved [sample_a, sample_b]) = loaded [sample_a, sample_b] 0"
    by (simp add: init_def loaded_def)
  then show ?thesis
    using viewable_two(1) by (simp add: click_next handleNext_def loaded_def)
qed

lemma optional_map_absent [simp]: "optional_map JUndefined f = Inr (Expr JUndefined)"
  by (simp add: optional_map_def)

lemma li_item_view:
  "t \<noteq> ''li'' \<Longrightarrow> elems_by_tag ''li'' (item_view k l (Elem t a [Expr x]) opn) = []"
  by (simp add: item_view_def)

lemma render_all_absent:
  assumes "truthy (nth_js (reports st) (index st))"
    and "list_all (\<lambda>k. primitive (field (nth_js (reports st) (index st)) k)) scalar_keys"
    and "\<forall>k\<in>set collection_keys. field (nth_js (reports st) (index st)) k = JUndefined"
  shows "\<exists>pg. render st = Inr pg \<and> elems_by_tag ''li'' pg = []"
  using assms
  by (simp add: render_def page_def App_def ReportViewer_def Let_def Card_def CardContent_def
      Accordion_def summary_line_def section_item_ul section_item_p el_def
      collection_keys_def scalar_keys_def li_item_view mountable_item_view)

lemma toggle_twice_click:
  assumes "valid_reports (reports st)"
  shows "click (click st (Toggle k)) (Toggle k) = st"
proof (cases "0 \<le> index st \<and> index st < int (length (reports st))")
  case True
  let ?s = "st\<lparr>item_open := (item_open st)(k := toggle_open (item_open st k))\<rparr>"
  have "viewable st" and "viewable ?s"
    using assms True by (auto intro: valid_viewable)
  then show ?thesis
    by (simp add: click_toggle toggle_open_def)
next
  case False
  then have "\<not> viewable st"
    using viewable_in_range [of st] by auto
  then show ?thesis by (simp add: click_toggle)
qed

section \<open>The disclosure primitive\<close>

text \<open>
  C5. Toggling a disclosure instance twice returns it to its starting state, whatever
  that state is: the updater is an involution, and so is the toggle handler on the
  state. So is a double click on the trigger of the page, whatever the state of a viewer
  that holds valid records. From the initial state the content is therefore absent from
  the render again.
\<close>

theorem toggle_twice_restores:
  "toggle_open (toggle_open b) = b
   \<and> perform (Toggle k) (perform (Toggle k) st) = st
   \<and> (valid_reports (reports st) \<longrightarrow> click (click st (Toggle k)) (Toggle k) = st)
   \<and> AccordionContent cs
        (Some \<lparr>open_state = toggle_open (toggle_open AccordionItem_init), toggle = t\<rparr>)
       = Inr (Expr JNull)"
  using toggle_twice_click [of st k]
  by (simp add: toggle_open_def AccordionContent_def AccordionItem_init_def)

theorem toggle_twice_restores_witness:
  "valid_reports (reports (loaded [sample_a] 0))
   \<and> click (click (loaded [sample_a] 0) (Toggle ''cuecs'')) (Toggle ''cuecs'') = loaded [sample_a] 0
   \<and> item_open (click (loaded [sample_a] 0) (Toggle ''cuecs'')) ''cuecs'' = True"
proof -
  have v: "valid_reports (reports (loaded [sample_a] 0))"
    by (simp add: valid_reports_def valid_samples)
  have "item_open (click (loaded [sample_a] 0) (Toggle ''cuecs'')) ''cuecs'' = True"
    using viewable_sample by (simp add: click_toggle item_values_def toggle_open_def)
  with toggle_twice_restores [of True "''cuecs''" "loaded [sample_a] 0"] v
  show ?thesis by simp
qed



text \<open>
  C7. Toggling one disclosure instance leaves the open or closed state of every other
  instance unchanged, and leaves the record array and the index unchanged.
\<close>

theorem toggle_frame:
  "j \<noteq> k \<Longrightarrow> item_open (click st (Toggle k)) j = item_open st j
     \<and> reports (click st (Toggle k)) = reports st \<and> index (click st (Toggle k)) = index st"
  by (simp add: click_toggle)

theorem toggle_frame_witness:
  "''services'' \<noteq> ''cuecs''
   \<and> item_open (click (loaded [sample_a] 0) (Toggle ''cuecs'')) ''cuecs'' = True
   \<and> item_open (click (loaded [sample_a] 0) (Toggle ''cuecs'')) ''services'' = False"
  using toggle_frame [of "''services''" "''cuecs''" "loaded [sample_a] 0"] viewable_sample
  by (simp add: click_toggle item_values_def toggle_open_def)

text \<open>
  C8. A trigger or a content region rendered outside a disclosure instance throws at
  render time, also when it stands inside an \<^verbatim>\<open>Accordion\<close> with no item around
  it; inside an item neither throws.
\<close>

theorem trigger_content_outside_item_raise:
  "AccordionTrigger cs None = Inl (Error ''AccordionTrigger must be used within an AccordionItem'')
   \<and> AccordionContent cs None = Inl (Error ''AccordionContent must be used within an AccordionItem'')
   \<and> Accordion c [AccordionTrigger cs] None
       = Inl (Error ''AccordionTrigger must be used within an AccordionItem'')
   \<and> Accordion c [AccordionContent cs] None
       = Inl (Error ''AccordionContent must be used within an AccordionItem'')
   \<and> \<not> isl (AccordionItem k opn [AccordionTrigger [txt_node l], AccordionContent [node b]] None)"
  by (simp add: AccordionTrigger_def AccordionContent_def Accordion_def AccordionItem_def el_def)

theorem trigger_content_outside_item_raise_witness:
  "AccordionTrigger [txt_node ''CUECs''] None
     = Inl (Error ''AccordionTrigger must be used within an AccordionItem'')
   \<and> AccordionContent [node (Text ''none'')] None
     = Inl (Error ''AccordionContent must be used within an AccordionItem'')"
  using trigger_content_outside_item_raise [of "[txt_node ''CUECs'']"]
        trigger_content_outside_item_raise [of "[node (Text ''none'')]"]
  by simp

section \<open>The report viewer\<close>

text \<open>
  C9. For every valid non-empty report array the fetch delivers, the viewer holds the
  array with the index at 0, and the page's only heading shows the file name field of
  the first record.
\<close>

theorem first_record_shown:
  assumes "valid_reports rs" and "rs \<noteq> []" and "list_all is_click es1"
  shows "index (run init (es1 @ [FetchResolved rs])) = 0
       \<and> reports (run init (es1 @ [FetchResolved rs])) = rs
       \<and> (\<exists>v. render (run init (es1 @ [FetchResolved rs])) = Inr v
              \<and> elems_by_tag ''h1'' v =
                  [Elem ''h1'' (cls ''text-2xl font-bold text-cyan-300'')
                     [Expr (field (hd rs) ''file_name'')]])"
proof -
  let ?s = "run init (es1 @ [FetchResolved rs])"
  have s: "?s = init\<lparr>reports := rs, fetch_pending := False\<rparr>"
    using assms(3) by (rule run_fetch_resolved)
  then have i: "index ?s = 0" and r: "reports ?s = rs"
    by (simp_all add: init_def)
  have "viewable ?s"
    using assms(1,2) i r by (intro valid_viewable) simp_all
  from viewable_title [OF this] obtain v where "render ?s = Inr v"
    and "elems_by_tag ''h1'' v =
           [Elem ''h1'' (cls ''text-2xl font-bold text-cyan-300'')
              [Expr (field (nth_js (reports ?s) (index ?s)) ''file_name'')]]"
    by blast
  moreover have "nth_js rs 0 = hd rs"
    using assms(2) by (simp add: nth_js_def hd_conv_nth)
  ultimately show ?thesis using i r by simp
qed

theorem first_record_shown_witness:
  "valid_reports [sample_a, sample_b] \<and> [sample_a, sample_b] \<noteq> []
   \<and> list_all is_click [Click HandleNext]
   \<and> index (run init ([Click HandleNext] @ [FetchResolved [sample_a, sample_b]])) = 0
   \<and> (\<exists>v. render (run init ([Click HandleNext] @ [FetchResolved [sample_a, sample_b]])) = Inr v
          \<and> elems_by_tag ''h1'' v =
              [Elem ''h1'' (cls ''text-2xl font-bold text-cyan-300'') [Expr (JStr ''A.pdf'')]])"
proof -
  have h: "list_all is_click [Click HandleNext]" by simp
  have n: "[sample_a, sample_b] \<noteq> []" by simp
  have f: "field (hd [sample_a, sample_b]) ''file_name'' = JStr ''A.pdf''"
    by (simp add: sample_a_def)
  from first_record_shown [OF valid_two n h] valid_two h f
  show ?thesis by simp
qed

text \<open>
  C2. The previous handler decrements the index with floor 0 and the next handler
  increments it with ceiling length - 1. On a page that shows a record, a click on
  either control applies its handler, the Previous control is disabled exactly at index
  0 and the Next control exactly at the last index. At index 0 a click on Previous
  changes nothing, and at the last index a click on Next changes nothing. Whatever the
  sequence of events from the mount, once records are loaded the index lies in
  [0, length - 1].
\<close>

theorem navigation_clamped:
  "handlePrev i = max (i - 1) 0
   \<and> handleNext rs i = min (i + 1) (int (length rs) - 1)
   \<and> (truthy (nth_js (reports st) (index st)) \<and> render st = Inr v \<longrightarrow>
        index (click st HandlePrev) = max (index st - 1) 0
        \<and> index (click st HandleNext) = min (index st + 1) (int (length (reports st)) - 1)
        \<and> map (\<lambda>b. disabled (attributes b)) (buttons_labelled ''Previous'' v)
            = [Some (index st = 0)]
        \<and> map (\<lambda>b. disabled (attributes b)) (buttons_labelled ''Next'' v)
            = [Some (index st = int (length (reports st)) - 1)])
   \<and> (index st = 0 \<longrightarrow> click st HandlePrev = st)
   \<and> (index st = int (length (reports st)) - 1 \<longrightarrow> click st HandleNext = st)
   \<and> (reports (run init es) \<noteq> [] \<longrightarrow>
        0 \<le> index (run init es)
        \<and> index (run init es) \<le> int (length (reports (run init es))) - 1)"
proof -
  have "truthy (nth_js (reports st) (index st)) \<and> render st = Inr v \<longrightarrow>
        index (click st HandlePrev) = max (index st - 1) 0
        \<and> index (click st HandleNext) = min (index st + 1) (int (length (reports st)) - 1)
        \<and> map (\<lambda>b. disabled (attributes b)) (buttons_labelled ''Previous'' v)
            = [Some (index st = 0)]
        \<and> map (\<lambda>b. disabled (attributes b)) (buttons_labelled ''Next'' v)
            = [Some (index st = int (length (reports st)) - 1)]"
  proof (intro impI, elim conjE)
    assume t: "truthy (nth_js (reports st) (index st))" and v: "render st = Inr v"
    then have "viewable st"
      by (simp add: viewable_def current_def)
    then show "index (click st HandlePrev) = max (index st - 1) 0
        \<and> index (click st HandleNext) = min (index st + 1) (int (length (reports st)) - 1)
        \<and> map (\<lambda>b. disabled (attributes b)) (buttons_labelled ''Previous'' v)
            = [Some (index st = 0)]
        \<and> map (\<lambda>b. disabled (attributes b)) (buttons_labelled ''Next'' v)
            = [Some (index st = int (length (reports st)) - 1)]"
      by (simp add: click_prev click_next handlePrev_def handleNext_def
          render_report_prev [OF t v] render_report_next [OF t v])
  qed
  moreover have "index st = 0 \<longrightarrow> click st HandlePrev = st"
    by (simp add: click_prev handlePrev_def)
  moreover have "index st = int (length (reports st)) - 1 \<longrightarrow> click st HandleNext = st"
    by (simp add: click_next handleNext_def)
  moreover have "reports (run init es) \<noteq> [] \<longrightarrow>
        0 \<le> index (run init es)
        \<and> index (run init es) \<le> int (length (reports (run init es))) - 1"
    using run_nav_inv [OF nav_inv_init, of es] by (auto simp: nav_inv_def)
  ultimately show ?thesis
    by (simp add: handlePrev_def handleNext_def)
qed

theorem navigation_clamped_witness:
  "index (loaded [sample_a, sample_b] 0) = 0
   \<and> click (loaded [sample_a, sample_b] 0) HandlePrev = loaded [sample_a, sample_b] 0
   \<and> index (click (loaded [sample_a, sample_b] 0) HandleNext) = 1
   \<and> (\<exists>v. render (loaded [sample_a, sample_b] 0) = Inr v
          \<and> map (\<lambda>b. disabled (attributes b)) (buttons_labelled ''Previous'' v) = [Some True]
          \<and> map (\<lambda>b. disabled (attributes b)) (buttons_labelled ''Next'' v) = [Some False])
   \<and> reports (run init [FetchResolved [sample_a, sample_b], Click HandleNext]) \<noteq> []
   \<and> index (run init [FetchResolved [sample_a, sample_b], Click HandleNext]) \<le> 1"
proof -
  let ?s = "loaded [sample_a, sample_b] 0"
  have t: "truthy (nth_js (reports ?s) (index ?s))"
    using viewable_two(1) by (simp add: viewable_def current_def)
  obtain v where v: "render ?s = Inr v"
    using viewable_title [OF viewable_two(1)] by blast
  from navigation_clamped
    [of 0 "[sample_a, sample_b]" ?s v "[FetchResolved [sample_a, sample_b], Click HandleNext]"]
    t v
  show ?thesis unfolding run_two by auto
qed

text \<open>
  C1, as amended. For every loaded array of valid records and every index in range,
  Next and then Previous lead back to the same index when it is not the last one (or
  when the array has a single record), and to the index before it when it is the last
  index of a longer array: there Next is a no-op and Previous moves back. In both cases
  the heading shows the file name of the record at the resulting index.
\<close>

theorem next_then_previous:
  assumes "valid_reports (reports st)" and "0 \<le> index st"
    and "index st < int (length (reports st))"
  shows "index (click (click st HandleNext) HandlePrev)
           = (if index st + 1 < int (length (reports st)) \<or> index st = 0
              then index st else index st - 1)
       \<and> (\<exists>v. render (click (click st HandleNext) HandlePrev) = Inr v
              \<and> elems_by_tag ''h1'' v =
                  [Elem ''h1'' (cls ''text-2xl font-bold text-cyan-300'')
                     [Expr (field (nth_js (reports st)
                                     (index (click (click st HandleNext) HandlePrev)))
                                  ''file_name'')]])"
proof -
  let ?s1 = "click st HandleNext" and ?s2 = "click (click st HandleNext) HandlePrev"
  have "viewable st"
    using assms by (rule valid_viewable)
  then have i1: "index ?s1 = min (index st + 1) (int (length (reports st)) - 1)"
    by (simp add: click_next handleNext_def)
  have "viewable ?s1"
    using assms by (intro valid_viewable) (auto simp: i1)
  then have i2: "index ?s2 = max (index ?s1 - 1) 0"
    by (simp add: click_prev handlePrev_def)
  have i: "index ?s2 = (if index st + 1 < int (length (reports st)) \<or> index st = 0
              then index st else index st - 1)"
    using assms(2,3) i1 i2 by auto
  have "viewable ?s2"
    using assms by (intro valid_viewable) (auto simp: i)
  from viewable_title [OF this] i show ?thesis by simp
qed

theorem next_then_previous_witness:
  "valid_reports (reports (loaded [sample_a, sample_b] 0))
   \<and> index (click (click (loaded [sample_a, sample_b] 0) HandleNext) HandlePrev) = 0
   \<and> (\<exists>v. render (click (click (loaded [sample_a, sample_b] 0) HandleNext) HandlePrev) = Inr v
          \<and> elems_by_tag ''h1'' v =
              [Elem ''h1'' (cls ''text-2xl font-bold text-cyan-300'') [Expr (JStr ''A.pdf'')]])"
proof -
  have a: "valid_reports (reports (loaded [sample_a, sample_b] 0))"
    by (simp add: valid_two)
  have b: "0 \<le> index (loaded [sample_a, sample_b] 0)"
    and c: "index (loaded [sample_a, sample_b] 0) < int (length (reports (loaded [sample_a, sample_b] 0)))"
    by simp_all
  have f: "field (nth_js [sample_a, sample_b] 0) ''file_name'' = JStr ''A.pdf''"
    by (simp add: nth_js_def sample_a_def)
  from next_then_previous [OF a b c]
  have i: "index (click (click (loaded [sample_a, sample_b] 0) HandleNext) HandlePrev) = 0"
    by simp
  from next_then_previous [OF a b c] obtain v where
    "render (click (click (loaded [sample_a, sample_b] 0) HandleNext) HandlePrev) = Inr v"
    and "elems_by_tag ''h1'' v =
           [Elem ''h1'' (cls ''text-2xl font-bold text-cyan-300'')
              [Expr (field (nth_js (reports (loaded [sample_a, sample_b] 0))
                       (index (click (click (loaded [sample_a, sample_b] 0) HandleNext) HandlePrev)))
                     ''file_name'')]]"
    by blast
  with a i f show ?thesis by simp
qed

text \<open>
  C1 as stated fails at the last index: with two records loaded and the second on
  display (a state one click on Next reaches), Next and then Previous end at the first
  record.
\<close>

theorem next_then_previous_counterexample:
  "valid_reports [sample_a, sample_b]
   \<and> run init [FetchResolved [sample_a, sample_b], Click HandleNext] = loaded [sample_a, sample_b] 1
   \<and> 0 \<le> index (loaded [sample_a, sample_b] 1)
   \<and> index (loaded [sample_a, sample_b] 1) < int (length (reports (loaded [sample_a, sample_b] 1)))
   \<and> index (click (click (loaded [sample_a, sample_b] 1) HandleNext) HandlePrev) = 0
   \<and> index (click (click (loaded [sample_a, sample_b] 1) HandleNext) HandlePrev)
       \<noteq> index (loaded [sample_a, sample_b] 1)"
proof -
  have n: "click (loaded [sample_a, sample_b] 1) HandleNext = loaded [sample_a, sample_b] 1"
    using viewable_two(2) by (simp add: click_next handleNext_def loaded_def)
  have "index (click (loaded [sample_a, sample_b] 1) HandlePrev) = 0"
    using viewable_two(2) by (simp add: click_prev handlePrev_def)
  with n show ?thesis unfolding run_two by (simp add: valid_two)
qed

text \<open>
  C3. When the fetch rejects, whatever the user clicked before and whatever happens
  after, the console holds the one logged failure, the report array is empty, and the
  page is the loading placeholder and nothing else.
\<close>

theorem fetch_failure_stuck_loading:
  assumes "list_all is_click es1"
  shows "console (run init (es1 @ FetchRejected err # es2)) = [(''Failed to load JSON:'', err)]
       \<and> reports (run init (es1 @ FetchRejected err # es2)) = []
       \<and> render (run init (es1 @ FetchRejected err # es2))
           = Inr (Elem ''div'' (cls ''min-h-screen w-full bg-slate-900 text-white px-8'')
                   [Elem ''p'' (cls ''p-6 text-white bg-slate-900 min-h-screen'')
                      [Text ''Loading...'']])"
proof -
  let ?s = "run init (es1 @ FetchRejected err # es2)"
  have s: "?s = init\<lparr>console := [(''Failed to load JSON:'', err)], fetch_pending := False\<rparr>"
    using assms by (rule run_fetch_rejected)
  then have "reports ?s = []" and "console ?s = [(''Failed to load JSON:'', err)]"
    by (simp_all add: init_def)
  moreover from \<open>reports ?s = []\<close> have "render ?s = Inr page_loading"
    by (rule render_empty)
  ultimately show ?thesis by (simp add: page_loading_def loading_def)
qed

theorem fetch_failure_stuck_loading_witness:
  "list_all is_click [Click HandleNext]
   \<and> console (run init ([Click HandleNext]
        @ FetchRejected ''NetworkError'' # [Click HandlePrev, FetchResolved [sample_a]]))
       = [(''Failed to load JSON:'', ''NetworkError'')]
   \<and> reports (run init ([Click HandleNext]
        @ FetchRejected ''NetworkError'' # [Click HandlePrev, FetchResolved [sample_a]])) = []"
proof -
  have h: "list_all is_click [Click HandleNext]" by simp
  from fetch_failure_stuck_loading [OF h, of "''NetworkError''" "[Click HandlePrev, FetchResolved [sample_a]]"] h
  show ?thesis by blast
qed

text \<open>
  C10. When the fetch delivers an empty array the report array stays empty and the
  page stays the loading placeholder, the same page a rejected fetch leaves; and the
  placeholder is the page of every state whose index holds no record.
\<close>

theorem empty_load_stuck_loading:
  assumes "list_all is_click es1"
  shows "reports (run init (es1 @ FetchResolved [] # es2)) = []
       \<and> render (run init (es1 @ FetchResolved [] # es2))
           = Inr (Elem ''div'' (cls ''min-h-screen w-full bg-slate-900 text-white px-8'')
                   [Elem ''p'' (cls ''p-6 text-white bg-slate-900 min-h-screen'')
                      [Text ''Loading...'']])
       \<and> render (run init (es1 @ FetchResolved [] # es2))
           = render (run init (es1 @ FetchRejected err # es2))
       \<and> (nth_js (reports st) (index st) = JUndefined \<longrightarrow>
            render st
            = Inr (Elem ''div'' (cls ''min-h-screen w-full bg-slate-900 text-white px-8'')
                    [Elem ''p'' (cls ''p-6 text-white bg-slate-900 min-h-screen'')
                       [Text ''Loading...'']]))"
proof -
  let ?s = "run init (es1 @ FetchResolved [] # es2)"
  have "run init (es1 @ [FetchResolved []]) = init\<lparr>reports := [], fetch_pending := False\<rparr>"
    using assms by (rule run_fetch_resolved)
  then have "?s = run (init\<lparr>reports := [], fetch_pending := False\<rparr>) es2"
    using run_append [of init "es1 @ [FetchResolved []]" es2] by simp
  also have "\<dots> = init\<lparr>reports := [], fetch_pending := False\<rparr>"
    by (intro settled_empty_stuck) simp_all
  finally have r: "reports ?s = []" by simp
  then have v: "render ?s = Inr page_loading"
    by (rule render_empty)
  have "reports (run init (es1 @ FetchRejected err # es2)) = []"
    using run_fetch_rejected [OF assms] by (simp add: init_def)
  then have "render (run init (es1 @ FetchRejected err # es2)) = Inr page_loading"
    by (rule render_empty)
  moreover have "nth_js (reports st) (index st) = JUndefined \<longrightarrow> render st = Inr page_loading"
    using render_loading [of st] by (simp add: page_loading_def)
  ultimately show ?thesis using r v by (simp add: page_loading_def loading_def)
qed

theorem empty_load_stuck_loading_witness:
  "list_all is_click [Click HandleNext]
   \<and> reports (run init ([Click HandleNext] @ FetchResolved [] # [Click HandleNext])) = []
   \<and> render (run init ([Click HandleNext] @ FetchResolved [] # [Click HandleNext]))
       = render (run init ([Click HandleNext] @ FetchRejected ''NetworkError'' # [Click HandleNext]))
   \<and> nth_js (reports (loaded [sample_a] 1)) (index (loaded [sample_a] 1)) = JUndefined
   \<and> render (loaded [sample_a] 1)
       = Inr (Elem ''div'' (cls ''min-h-screen w-full bg-slate-900 text-white px-8'')
               [Elem ''p'' (cls ''p-6 text-white bg-slate-900 min-h-screen'')
                  [Text ''Loading...'']])"
proof -
  have h: "list_all is_click [Click HandleNext]" by simp
  have u: "nth_js (reports (loaded [sample_a] 1)) (index (loaded [sample_a] 1)) = JUndefined"
    by (simp add: nth_js_def)
  from empty_load_stuck_loading [OF h, of "[Click HandleNext]" "''NetworkError''" "loaded [sample_a] 1"] h u
  show ?thesis by blast
qed

text \<open>
  C4. A list section whose collection field is absent from the record renders without
  an exception, with no list item, its list (shown when the section is open) holding
  only the undefined value. A record on display with all eight collections absent,
  its scalars primitive values or absent, renders a page with no list item at all; an
  absent file name leaves the heading blank, and an entry with no fields renders as a
  row of blank values.
\<close>

theorem absent_collection_renders_empty:
  "(field r k = JUndefined \<longrightarrow>
      (\<exists>sec. section_item v l (ul c) (optional_map (field r k) f) opn ctx = Inr sec
            \<and> elems_by_tag ''li'' sec = []
            \<and> (opn \<longrightarrow> elems_by_tag ''ul'' sec = [Elem ''ul'' (cls c) [Expr JUndefined]])))
   \<and> (truthy (nth_js (reports st) (index st))
       \<and> list_all (\<lambda>k. primitive (field (nth_js (reports st) (index st)) k)) scalar_keys
       \<and> (\<forall>k\<in>set collection_keys. field (nth_js (reports st) (index st)) k = JUndefined) \<longrightarrow>
      (\<exists>pg. render st = Inr pg \<and> elems_by_tag ''li'' pg = []))
   \<and> (truthy (nth_js (reports st) (index st)) \<and> render st = Inr pg
       \<and> field (nth_js (reports st) (index st)) ''file_name'' = JUndefined \<longrightarrow>
      elems_by_tag ''h1'' pg
        = [Elem ''h1'' (cls ''text-2xl font-bold text-cyan-300'') [Expr JUndefined]])
   \<and> labelled_row a b (JObj []) i
       = Inr (li i [Elem ''strong'' no_attrs [Expr JUndefined, Text '':''], Text '' '',
                    Expr JUndefined])"
proof -
  have "field r k = JUndefined \<longrightarrow>
      (\<exists>sec. section_item v l (ul c) (optional_map (field r k) f) opn ctx = Inr sec
            \<and> elems_by_tag ''li'' sec = []
            \<and> (opn \<longrightarrow> elems_by_tag ''ul'' sec = [Elem ''ul'' (cls c) [Expr JUndefined]]))"
    by (simp add: section_item_ul item_view_def)
  moreover have "truthy (nth_js (reports st) (index st))
       \<and> list_all (\<lambda>k. primitive (field (nth_js (reports st) (index st)) k)) scalar_keys
       \<and> (\<forall>k\<in>set collection_keys. field (nth_js (reports st) (index st)) k = JUndefined) \<longrightarrow>
      (\<exists>pg. render st = Inr pg \<and> elems_by_tag ''li'' pg = [])"
    using render_all_absent by blast
  moreover have "truthy (nth_js (reports st) (index st)) \<and> render st = Inr pg
       \<and> field (nth_js (reports st) (index st)) ''file_name'' = JUndefined \<longrightarrow>
      elems_by_tag ''h1'' pg
        = [Elem ''h1'' (cls ''text-2xl font-bold text-cyan-300'') [Expr JUndefined]]"
    using render_report_h1 [of st pg] by auto
  moreover have "labelled_row a b (JObj []) i
       = Inr (li i [Elem ''strong'' no_attrs [Expr JUndefined, Text '':''], Text '' '',
                    Expr JUndefined])"
    by (simp add: labelled_row_def get_prop_def)
  ultimately show ?thesis by blast
qed

theorem absent_collection_renders_empty_witness:
  "field sample_b ''ThirdPartyServiceProvider'' = JUndefined
   \<and> (\<exists>sec. section_item ''ThirdPartyServiceProvider'' ''Third Party Service Providers''
               (ul ''list-disc pl-6 space-y-2'')
               (optional_map (field sample_b ''ThirdPartyServiceProvider'') strong_row) True None
             = Inr sec
          \<and> elems_by_tag ''li'' sec = []
          \<and> elems_by_tag ''ul'' sec = [Elem ''ul'' (cls ''list-disc pl-6 space-y-2'') [Expr JUndefined]])
   \<and> truthy (nth_js (reports (loaded [sample_c] 0)) (index (loaded [sample_c] 0)))
   \<and> list_all (\<lambda>k. primitive (field (nth_js (reports (loaded [sample_c] 0))
                                          (index (loaded [sample_c] 0))) k)) scalar_keys
   \<and> (\<exists>pg. render (loaded [sample_c] 0) = Inr pg
          \<and> elems_by_tag ''li'' pg = []
          \<and> elems_by_tag ''h1'' pg
              = [Elem ''h1'' (cls ''text-2xl font-bold text-cyan-300'') [Expr JUndefined]])"
proof -
  let ?s = "loaded [sample_c] 0"
  have a: "field sample_b ''ThirdPartyServiceProvider'' = JUndefined"
    by (simp add: sample_b_def)
  have t: "truthy (nth_js (reports ?s) (index ?s))"
    by (simp add: nth_js_def sample_c_def)
  have c: "\<forall>k\<in>set collection_keys. field (nth_js (reports ?s) (index ?s)) k = JUndefined"
    by (simp add: nth_js_def sample_c_def collection_keys_def)
  have f: "field (nth_js (reports ?s) (index ?s)) ''file_name'' = JUndefined"
    by (simp add: nth_js_def sample_c_def)
  have p: "list_all (\<lambda>k. primitive (field (nth_js (reports ?s) (index ?s)) k)) scalar_keys"
    by (simp add: nth_js_def sample_c_def scalar_keys_def)
  note inst = absent_collection_renders_empty
    [of sample_b "''ThirdPartyServiceProvider''" "''ThirdPartyServiceProvider''"
        "''Third Party Service Providers''" "''list-disc pl-6 space-y-2''" strong_row True None ?s]
  from inst t p c obtain pg where pg: "render ?s = Inr pg" and li: "elems_by_tag ''li'' pg = []"
    by blast
  from inst [of pg] a t f p pg li show ?thesis by auto
qed

end
